theory Spec2Isabelle
  imports Complex_Main
begin

chapter \<open>The program\<close>

section \<open>Python runtime: errors, \<open>range\<close> and slicing\<close>

text \<open>
  The exceptions that the modelled part of \<^verbatim>\<open>birnn_attn_text_clf.py\<close> can raise.
  \<open>ValueError\<close> is what \<^verbatim>\<open>range\<close> raises for a zero step, \<open>ZeroDivisionError\<close>
  what \<^verbatim>\<open>/\<close> raises for a zero divisor, \<open>IndexError\<close> and \<open>RuntimeError\<close> what the
  tensor library raises for an index out of range and for a shape that does not fit.
\<close>

datatype py_error = ValueError | ZeroDivisionError | IndexError | RuntimeError

text \<open>\<^verbatim>\<open>range(start, stop, step)\<close> for a positive and for a negative step.\<close>

function range_up :: "int \<Rightarrow> int \<Rightarrow> int \<Rightarrow> int list" where
  "range_up i stop step =
     (if 0 < step \<and> i < stop then i # range_up (i + step) stop step else [])"
  by pat_completeness auto
termination
  by (relation "measure (\<lambda>(i, stop, step). nat (stop - i))") auto

function range_down :: "int \<Rightarrow> int \<Rightarrow> int \<Rightarrow> int list" where
  "range_down i stop step =
     (if step < 0 \<and> stop < i then i # range_down (i + step) stop step else [])"
  by pat_completeness auto
termination
  by (relation "measure (\<lambda>(i, stop, step). nat (i - stop))") auto

declare range_up.simps [simp del] range_down.simps [simp del]

definition py_range :: "int \<Rightarrow> int \<Rightarrow> int \<Rightarrow> py_error + int list" where
  "py_range start stop step =
     (if step = 0 then Inl ValueError
      else if 0 < step then Inr (range_up start stop step)
      else Inr (range_down start stop step))"

text \<open>
  \<^verbatim>\<open>arr[i:j]\<close>: a negative bound counts from the end, and both bounds are clamped to
  the length of the sequence.
\<close>

definition slice_bound :: "nat \<Rightarrow> int \<Rightarrow> nat" where
  "slice_bound n i = (if i < 0 then nat (max 0 (int n + i)) else min n (nat i))"

definition py_slice :: "'a list \<Rightarrow> int \<Rightarrow> int \<Rightarrow> 'a list" where
  "py_slice arr i j =
     (let lo = slice_bound (length arr) i; hi = slice_bound (length arr) j
      in take (hi - lo) (drop lo arr))"

section \<open>The batch generator\<close>

text \<open>
  \<^verbatim>\<open>
  def gen_batch(self, arr, batch_size):
      for i in range(0, len(arr), batch_size):
          yield arr[i : i + batch_size]
  \<close>
  The generator is modelled by the list of the slices it yields; the error of
  \<^verbatim>\<open>range\<close> surfaces when the generator is first advanced.
\<close>

definition gen_batch :: "'a list \<Rightarrow> int \<Rightarrow> py_error + 'a list list" where
  "gen_batch arr batch_size =
     (case py_range 0 (int (length arr)) batch_size of
        Inl e \<Rightarrow> Inl e
      | Inr is \<Rightarrow> Inr (map (\<lambda>i. py_slice arr i (i + batch_size)) is))"

section \<open>The learning-rate scheduler\<close>

text \<open>
  \<^verbatim>\<open>
  def adjust_lr(self, optimizer, current_step, total_steps):
      max_lr = 0.005
      min_lr = 0.001
      decay_rate = math.log(min_lr/max_lr) / (-total_steps)
      lr = max_lr * math.exp(-decay_rate * current_step)
      for param_group in optimizer.param_groups:
          param_group['lr'] = lr
      return optimizer, lr
  \<close>
  Of the optimizer only the learning rate of each of its parameter groups is kept.
  The two step counts are Python integers. The arithmetic is that of the real numbers:
  \<^verbatim>\<open>math.log\<close> is \<open>ln\<close>, \<^verbatim>\<open>math.exp\<close> is \<open>exp\<close>, and the rounding of the
  machine's floating-point numbers is not modelled. The division raises
  \<open>ZeroDivisionError\<close> when its divisor \<^verbatim>\<open>-total_steps\<close> is zero.
\<close>

record optimizer =
  param_groups :: "real list"

definition adjust_lr :: "optimizer \<Rightarrow> int \<Rightarrow> int \<Rightarrow> py_error + optimizer \<times> real" where
  "adjust_lr optimizer current_step total_steps =
     (let max_lr = 0.005 :: real;
          min_lr = 0.001 :: real
      in if - total_steps = 0 then Inl ZeroDivisionError
         else
           let decay_rate = ln (min_lr / max_lr) / real_of_int (- total_steps);
               lr = max_lr * exp (- decay_rate * real_of_int current_step)
           in Inr (optimizer\<lparr>param_groups := map (\<lambda>param_group. lr) (param_groups optimizer)\<rparr>, lr))"

section \<open>Tensors\<close>

text \<open>
  A tensor of the array library is its shape together with its elements, nested one
  level per axis: a tensor of shape \<open>(2, 3)\<close> is an \<open>Arr\<close> of two \<open>Arr\<close>s of three
  \<open>Elem\<close>s. The shape is kept beside the elements because an axis of extent \<open>0\<close>
  leaves no element to read the inner extents from.
\<close>

datatype 'a nest = Elem 'a | Arr "'a nest list"

datatype 'a tensor = Tensor (shape: "nat list") (elems: "'a nest")

fun has_shape :: "nat list \<Rightarrow> 'a nest \<Rightarrow> bool" where
  "has_shape [] (Elem a) = True"
| "has_shape (n # ns) (Arr xs) = (length xs = n \<and> (\<forall>x \<in> set xs. has_shape ns x))"
| "has_shape _ _ = False"

definition wf_tensor :: "'a tensor \<Rightarrow> bool" where
  "wf_tensor X = has_shape (shape X) (elems X)"

text \<open>\<open>item X [i, j, k]\<close> is the element \<^verbatim>\<open>X[i, j, k]\<close>.\<close>

fun get_nest :: "'a nest \<Rightarrow> nat list \<Rightarrow> 'a option" where
  "get_nest (Elem a) [] = Some a"
| "get_nest (Arr xs) (i # is) = (if i < length xs then get_nest (xs ! i) is else None)"
| "get_nest _ _ = None"

definition item :: "'a tensor \<Rightarrow> nat list \<Rightarrow> 'a option" where
  "item X idx = get_nest (elems X) idx"

text \<open>
  An axis argument of a tensor with \<open>ndim\<close> axes ranges over \<open>-ndim \<le> axis < ndim\<close>,
  a negative one counting from the last axis; any other is an \<open>IndexError\<close>. (The
  library and the source call the argument \<^verbatim>\<open>dim\<close>; it is \<open>axis\<close> here.)
\<close>

definition wrap_dim :: "nat \<Rightarrow> int \<Rightarrow> py_error + nat" where
  "wrap_dim ndim axis =
     (if - int ndim \<le> axis \<and> axis < int ndim
      then Inr (nat (if axis < 0 then axis + int ndim else axis))
      else Inl IndexError)"

text \<open>\<^verbatim>\<open>X.size(dim)\<close>\<close>

definition size_t :: "'a tensor \<Rightarrow> int \<Rightarrow> py_error + nat" where
  "size_t X axis =
     (case wrap_dim (length (shape X)) axis of
        Inl e \<Rightarrow> Inl e
      | Inr d \<Rightarrow> Inr (shape X ! d))"

text \<open>
  \<^verbatim>\<open>torch.index_select(X, dim, indices)\<close>: the tensor whose entry \<open>j\<close> along \<open>axis\<close> is
  the entry \<open>indices[j]\<close> of \<open>X\<close> along \<open>axis\<close>; every index has to lie within the axis.
\<close>

fun select_nest :: "nat \<Rightarrow> nat list \<Rightarrow> 'a nest \<Rightarrow> 'a nest" where
  "select_nest 0 indices (Arr xs) = Arr (map (\<lambda>i. xs ! i) indices)"
| "select_nest (Suc d) indices (Arr xs) = Arr (map (select_nest d indices) xs)"
| "select_nest d indices (Elem a) = Elem a"

definition index_select :: "'a tensor \<Rightarrow> int \<Rightarrow> int list \<Rightarrow> py_error + 'a tensor" where
  "index_select X axis indices =
     (case wrap_dim (length (shape X)) axis of
        Inl e \<Rightarrow> Inl e
      | Inr d \<Rightarrow>
          if \<forall>i \<in> set indices. 0 \<le> i \<and> i < int (shape X ! d)
          then Inr (Tensor ((shape X)[d := length indices])
                      (select_nest d (map nat indices) (elems X)))
          else Inl IndexError)"

section \<open>Sequence reversal\<close>

text \<open>
  \<^verbatim>\<open>
  def reverse(self, X, dim):
      indices = [i for i in range(X.size(dim)-1, -1, -1)]
      indices = torch.autograd.Variable(torch.LongTensor(indices))
      inverted = torch.index_select(X, dim, indices)
      return inverted
  \<close>
\<close>

definition reverse :: "'a tensor \<Rightarrow> int \<Rightarrow> py_error + 'a tensor" where
  "reverse X axis =
     (case size_t X axis of
        Inl e \<Rightarrow> Inl e
      | Inr n \<Rightarrow>
          (case py_range (int n - 1) (- 1) (- 1) of
             Inl e \<Rightarrow> Inl e
           | Inr indices \<Rightarrow> index_select X axis indices))"

section \<open>The model and its layers\<close>

text \<open>
  The layers come from the tensor library; each is modelled by what it computes.
  An embedding replaces every token index by its row of the embedding table, so the
  result has one more axis than the input; a token outside the table is an error.
\<close>

fun leaves :: "'a nest \<Rightarrow> 'a list" where
  "leaves (Elem a) = [a]"
| "leaves (Arr xs) = concat (map leaves xs)"

fun children :: "'a nest \<Rightarrow> 'a nest list" where
  "children (Arr xs) = xs"
| "children (Elem a) = []"

definition vec_nest :: "'a list \<Rightarrow> 'a nest" where
  "vec_nest v = Arr (map Elem v)"



text \<open>
  A recurrent layer (\<^verbatim>\<open>torch.nn.LSTM\<close> with \<^verbatim>\<open>batch_first=True\<close> and one layer)
  scans every example of the batch on its own, from a zero state, and returns the
  hidden vector of every time step. The gate equations with the layer's weights are
  the \<open>lstm_cell\<close>: it maps the state \<open>(h, c)\<close> and an input vector to the next state.
  (The dropout of such a layer acts between stacked layers only, so with one layer
  there is none.)
\<close>

type_synonym lstm_state = "real list \<times> real list"
type_synonym lstm_cell = "lstm_state \<Rightarrow> real list \<Rightarrow> lstm_state"





text \<open>
  \<^verbatim>\<open>
  def build_model(self):
      self.encoder = torch.nn.Embedding(self.vocab_size, self.embedding_dim)
      self.fw_lstm = torch.nn.LSTM(input_size=self.embedding_dim, hidden_size=self.cell_size, ...)
      self.bw_lstm = torch.nn.LSTM(input_size=self.embedding_dim, hidden_size=self.cell_size, ...)
      self.attn_fc = torch.nn.Linear(2*self.cell_size, 1)
      self.fc = torch.nn.Linear(2*self.cell_size, self.n_out)
      self.criterion = torch.nn.CrossEntropyLoss()
      self.optimizer = torch.optim.Adam(self.parameters())
  \<close>
  A linear layer is the width of its input, its weight matrix (one row per output) and
  its bias. The loss criterion and the update rule of the optimizer belong to the tensor
  library; of the optimizer the model keeps the learning rates of its parameter groups.
\<close>

record linear =
  in_features :: nat
  weight :: "real list list"
  bias :: "real list"

record model =
  vocab_size :: nat
  embedding_dim :: nat
  cell_size :: nat
  n_out :: nat
  encoder :: "real list list"
  fw_lstm :: lstm_cell
  bw_lstm :: lstm_cell
  attn_fc :: linear
  fc :: linear
  optimizer :: optimizer

section \<open>The bidirectional encoder\<close>



section \<open>Attention pooling\<close>

text \<open>
  The tensor operations of the attention layer. \<^verbatim>\<open>X.view(sizes)\<close> reads the elements in
  row-major order into a new shape; one size may be \<open>-1\<close> and is then inferred from the
  number of elements.
\<close>

fun unflatten :: "nat list \<Rightarrow> 'a list \<Rightarrow> 'a nest" where
  "unflatten [] xs = (case xs of [] \<Rightarrow> Arr [] | a # _ \<Rightarrow> Elem a)"
| "unflatten (n # ns) xs =
     Arr (map (\<lambda>k. unflatten ns (take (prod_list ns) (drop (k * prod_list ns) xs))) [0..<n])"

definition view :: "'a tensor \<Rightarrow> int list \<Rightarrow> py_error + 'a tensor" where
  "view X sizes =
     (let total = prod_list (shape X);
          known = prod_list (map nat (filter (\<lambda>s. s \<noteq> - 1) sizes));
          inferred = length (filter (\<lambda>s. s = - 1) sizes)
      in if (\<exists>s \<in> set sizes. s < - 1) \<or> 1 < inferred then Inl RuntimeError
         else if inferred = 1 \<and> (known = 0 \<or> total mod known \<noteq> 0) then Inl RuntimeError
         else if inferred = 0 \<and> known \<noteq> total then Inl RuntimeError
         else
           let new_shape = map (\<lambda>s. if s = - 1 then total div known else nat s) sizes
           in Inr (Tensor new_shape (unflatten new_shape (leaves (elems X)))))"

text \<open>
  A linear layer maps every vector along the last axis to \<open>weight \<cdot> x + bias\<close>.
\<close>

definition dot :: "real list \<Rightarrow> real list \<Rightarrow> real" where
  "dot x y = sum_list (map (\<lambda>(a, b). a * b) (zip x y))"

fun map_vectors :: "('a list \<Rightarrow> 'b list) \<Rightarrow> nat \<Rightarrow> 'a nest \<Rightarrow> 'b nest" where
  "map_vectors f 0 t = vec_nest (f (leaves t))"
| "map_vectors f (Suc d) t = Arr (map (map_vectors f d) (children t))"

definition linear_layer :: "linear \<Rightarrow> real tensor \<Rightarrow> py_error + real tensor" where
  "linear_layer layer X =
     (if shape X \<noteq> [] \<and> last (shape X) = in_features layer
      then Inr (Tensor (butlast (shape X) @ [length (weight layer)])
             (map_vectors (\<lambda>x. map (\<lambda>(w, b). dot w x + b) (zip (weight layer) (bias layer)))
                (length (shape X) - 1) (elems X)))
      else Inl RuntimeError)"

text \<open>
  \<^verbatim>\<open>torch.nn.functional.softmax(input)\<close>, called without an axis. The library then
  chooses the axis from the number of axes of the input (its \<^verbatim>\<open>_get_softmax_dim\<close>):
  axis \<open>0\<close> for an input with 0, 1 or 3 axes, and axis \<open>1\<close> otherwise.
\<close>

definition softmax_dim :: "nat \<Rightarrow> nat" where
  "softmax_dim ndim = (if ndim = 0 \<or> ndim = 1 \<or> ndim = 3 then 0 else 1)"

text \<open>
  The softmax along the first axis of a nest of shape \<open>n # ns\<close>: entry \<open>i\<close> is divided by
  the sum over all \<open>i\<close>, position by position.
\<close>

definition softmax_first :: "nat list \<Rightarrow> real nest \<Rightarrow> real nest" where
  "softmax_first ns t =
     (let es = map (\<lambda>x. map exp (leaves x)) (children t);
          total = foldr (\<lambda>e acc. map (\<lambda>(a, b). a + b) (zip e acc)) es (replicate (prod_list ns) 0)
      in Arr (map (\<lambda>e. unflatten ns (map (\<lambda>(a, b). a / b) (zip e total))) es))"

fun softmax_nest :: "nat \<Rightarrow> nat list \<Rightarrow> real nest \<Rightarrow> real nest" where
  "softmax_nest 0 sh t = softmax_first (tl sh) t"
| "softmax_nest (Suc d) sh t = Arr (map (softmax_nest d (tl sh)) (children t))"

definition softmax :: "real tensor \<Rightarrow> real tensor" where
  "softmax X =
     (if shape X = [] then map_tensor (\<lambda>x. exp x / exp x) X
      else Tensor (shape X) (softmax_nest (softmax_dim (length (shape X))) (shape X) (elems X)))"








text \<open>
  \<^verbatim>\<open>
  def attention(self, X, batch_size):
      reshaped = X.view(-1, 2*self.cell_size)
      reduced = torch.nn.functional.tanh(self.attn_fc(reshaped))
      alphas = torch.nn.functional.softmax(reduced.view(batch_size, -1, 1)) # (batch_size, max_seq_len, 1)
      # (batch, cell_size, seq_len) * (batch, seq_len, 1) -> (batch, cell_size)
      return torch.bmm(torch.transpose(X, 1, 2), alphas).squeeze(2)
  \<close>
  \<open>attention_alphas\<close> is the function up to its local variable \<^verbatim>\<open>alphas\<close>, the
  attention weights; \<open>attention\<close> is the whole function.
\<close>

definition attention_alphas :: "model \<Rightarrow> real tensor \<Rightarrow> int \<Rightarrow> py_error + real tensor" where
  "attention_alphas self X batch_size =
     (case view X [- 1, 2 * int (cell_size self)] of
        Inl e \<Rightarrow> Inl e
      | Inr reshaped \<Rightarrow>
     (case linear_layer (attn_fc self) reshaped of
        Inl e \<Rightarrow> Inl e
      | Inr projected \<Rightarrow>
          let reduced = map_tensor tanh projected
          in (case view reduced [batch_size, - 1, 1] of
                Inl e \<Rightarrow> Inl e
              | Inr scores \<Rightarrow> Inr (softmax scores))))"



section \<open>Evaluation and training\<close>















section \<open>Notions of the verification\<close>

text \<open>The effect of a reversal on the nested elements, used to reason about it.\<close>

fun rev_axis :: "nat \<Rightarrow> 'a nest \<Rightarrow> 'a nest" where
  "rev_axis 0 (Arr xs) = Arr (rev xs)"
| "rev_axis (Suc d) (Arr xs) = Arr (map (rev_axis d) xs)"
| "rev_axis d (Elem a) = Elem a"


text \<open>A small model to run the definitions on: two tokens, one embedding number, cells of size one.\<close>

definition toy_model :: model where
  "toy_model =
     \<lparr>vocab_size = 2, embedding_dim = 1, cell_size = 1, n_out = 2,
      encoder = [[1], [2]],
      fw_lstm = (\<lambda>st x. ([sum_list (fst st) + sum_list x], snd st)),
      bw_lstm = (\<lambda>st x. ([sum_list (fst st) - sum_list x], snd st)),
      attn_fc = \<lparr>in_features = 2, weight = [[0, 0]], bias = [0]\<rparr>,
      fc = \<lparr>in_features = 2, weight = [[1, 0], [0, 1]], bias = [0, 0]\<rparr>,
      optimizer = \<lparr>param_groups = [0.001]\<rparr>\<rparr>"



chapter \<open>Verification\<close>

section \<open>Facts about \<open>range\<close> and slices\<close>

lemma range_up_eq:
  "0 < step \<Longrightarrow>
   range_up i stop step =
     map (\<lambda>k. i + int k * step) [0..<nat ((stop - i + step - 1) div step)]"
proof (induction i stop step rule: range_up.induct)
  case (1 i stop step)
  show ?case
  proof (cases "i < stop")
    case False
    with "1.prems" have "stop - i + step - 1 < step" by simp
    with "1.prems" have "(stop - i + step - 1) div step \<le> 0"
      by (cases "0 \<le> stop - i + step - 1")
        (simp_all add: div_pos_pos_trivial not_le div_nonpos_pos_le0 less_imp_le)
    with False "1.prems" show ?thesis
      by (simp add: range_up.simps [of i stop step])
  next
    case True
    let ?n = "nat ((stop - (i + step) + step - 1) div step)"
    have "stop - i + step - 1 = (stop - (i + step) + step - 1) + step" by simp
    then have "(stop - i + step - 1) div step = ((stop - (i + step) + step - 1) + step) div step"
      by (simp only:)
    also have "\<dots> = (stop - (i + step) + step - 1) div step + 1"
      using "1.prems" by (subst div_add_self2) simp_all
    finally have d: "(stop - i + step - 1) div step = (stop - (i + step) + step - 1) div step + 1" .
    have "0 \<le> (stop - (i + step) + step - 1) div step"
      using True "1.prems" by (simp add: pos_imp_zdiv_nonneg_iff)
    with d have n: "nat ((stop - i + step - 1) div step) = Suc ?n"
      by simp
    have "range_up i stop step = i # range_up (i + step) stop step"
      using True "1.prems" by (simp add: range_up.simps [of i stop step])
    also have "\<dots> = i # map (\<lambda>k. (i + step) + int k * step) [0..<?n]"
      using "1.IH" True "1.prems" by simp
    also have "\<dots> = map (\<lambda>k. i + int k * step) [0..<Suc ?n]"
      by (simp add: upt_conv_Cons map_Suc_upt [symmetric] algebra_simps del: upt_Suc)
    finally show ?thesis
      using n by simp
  qed
qed

lemma concat_take_drop:
  "concat (map (\<lambda>k. take b (drop (k * b) xs)) [0..<n]) = take (n * b) xs"
proof (induction n)
  case 0 show ?case by simp
next
  case (Suc n)
  have "take (n * b + b) xs = take (n * b) xs @ take b (drop (n * b) xs)"
    by (simp add: take_add)
  moreover have "Suc n * b = n * b + b" by simp
  ultimately show ?case using Suc by (simp del: mult_Suc)
qed

lemma py_slice_batch:
  assumes "0 < B"
  shows "py_slice arr (int k * B) (int k * B + B) = take (nat B) (drop (k * nat B) arr)"
proof -
  have a: "nat (int k * B) = k * nat B"
    using assms by (simp add: nat_mult_distrib)
  have b: "nat (int k * B + B) = k * nat B + nat B"
    using assms by (simp add: nat_add_distrib nat_mult_distrib)
  have "0 \<le> int k * B" using assms by simp
  then have nn: "\<not> int k * B < 0" "\<not> int k * B + B < 0"
    using assms by linarith+
  show ?thesis
  proof (cases "k * nat B \<le> length arr")
    case True
    then have "min (length arr) (k * nat B + nat B) - k * nat B = min (length arr - k * nat B) (nat B)"
      by linarith
    then show ?thesis
      using True nn by (simp add: py_slice_def slice_bound_def a b Let_def min_def)
  next
    case False
    then show ?thesis
      using nn by (simp add: py_slice_def slice_bound_def a b Let_def)
  qed
qed

lemma nbatch_nat:
  assumes "0 < B"
  shows "nat ((int N + B - 1) div B) = (N + nat B - 1) div nat B"
proof -
  have "int N + B - 1 = int (N + nat B - 1)" using assms by linarith
  moreover have "B = int (nat B)" using assms by simp
  ultimately have "(int N + B - 1) div B = int ((N + nat B - 1) div nat B)"
    by (metis zdiv_int)
  then show ?thesis by simp
qed

lemma nbatch_bounds:
  fixes b N :: nat
  assumes "0 < b"
  shows "N \<le> ((N + b - 1) div b) * b" and "((N + b - 1) div b) * b \<le> N + b - 1"
proof -
  let ?q = "(N + b - 1) div b"
  have eq: "?q * b + (N + b - 1) mod b = N + b - 1"
    by (rule div_mult_mod_eq)
  have "(N + b - 1) mod b < b" using assms by simp
  with eq show "N \<le> ?q * b" by linarith
  from eq show "?q * b \<le> N + b - 1" by linarith
qed

lemma nbatch_full:
  fixes b N :: nat
  assumes "0 < b" "Suc k < (N + b - 1) div b"
  shows "k * b + b \<le> N"
proof -
  have "Suc (Suc k) * b \<le> ((N + b - 1) div b) * b"
    using assms(2) by (intro mult_le_mono1) simp
  also have "\<dots> \<le> N + b - 1" using assms(1) by (rule nbatch_bounds(2))
  finally show ?thesis using assms(1) by simp
qed

lemma nbatch_lt:
  fixes b N :: nat
  assumes "0 < b" "k < (N + b - 1) div b"
  shows "k * b < N"
proof -
  have "Suc k * b \<le> ((N + b - 1) div b) * b"
    using assms(2) by (intro mult_le_mono1) simp
  also have "\<dots> \<le> N + b - 1" using assms(1) by (rule nbatch_bounds(2))
  finally show ?thesis using assms(1) by simp
qed

lemma nbatch_last:
  fixes b N :: nat
  assumes "0 < b" "0 < N"
  shows "N - ((N + b - 1) div b - 1) * b = (if N mod b = 0 then b else N mod b)"
proof -
  define r where "r = N mod b"
  define m where "m = N div b"
  have N: "N = m * b + r" by (simp add: r_def m_def)
  have rb: "r < b" using assms by (simp add: r_def)
  show ?thesis
  proof (cases "r = 0")
    case True
    with N assms have "0 < m" by (cases m) simp_all
    have "N + b - 1 = (b - 1) + m * b" using assms N True by simp
    then have "(N + b - 1) div b = (b - 1 + m * b) div b" by (simp only:)
    also have "\<dots> = (b - 1) div b + m"
      using assms(1) by (subst div_mult_self1) simp_all
    finally have "(N + b - 1) div b = (b - 1) div b + m" .
    also have "(b - 1) div b = 0" using assms by simp
    finally have "(N + b - 1) div b = m" by simp
    then have "N - ((N + b - 1) div b - 1) * b = m * b - (m - 1) * b"
      using N True by simp
    also have "\<dots> = b" using \<open>0 < m\<close> by (cases m) simp_all
    finally show ?thesis using True by (simp add: r_def [symmetric])
  next
    case False
    have "N + b - 1 = (r - 1) + Suc m * b" using False N by simp
    then have "(N + b - 1) div b = (r - 1 + Suc m * b) div b" by (simp only:)
    also have "\<dots> = (r - 1) div b + Suc m"
      using assms(1) by (subst div_mult_self1) simp_all
    finally have "(N + b - 1) div b = (r - 1) div b + Suc m" .
    also have "(r - 1) div b = 0" using rb by simp
    finally have "(N + b - 1) div b = Suc m" by simp
    then have "N - ((N + b - 1) div b - 1) * b = (m * b + r) - m * b"
      using N by simp
    also have "\<dots> = r" by simp
    finally show ?thesis using False by (simp add: r_def [symmetric])
  qed
qed

lemma gen_batch_pos:
  assumes "0 < B"
  shows "gen_batch arr B =
           Inr (map (\<lambda>k. take (nat B) (drop (k * nat B) arr))
                  [0..<(length arr + nat B - 1) div nat B])"
proof -
  have "range_up 0 (int (length arr)) B =
          map (\<lambda>k. int k * B) [0..<(length arr + nat B - 1) div nat B]"
    using range_up_eq [OF assms, of 0 "int (length arr)"] nbatch_nat [OF assms, of "length arr"]
    by simp
  then show ?thesis
    using assms by (simp add: gen_batch_def py_range_def py_slice_batch o_def)
qed

text \<open>
  Claim C1. For a positive batch size \<open>B\<close> and a sequence of length \<open>N\<close>, the batch
  generator raises nothing and yields \<open>\<lceil>N / B\<rceil>\<close> slices. The slices are contiguous
  (slice \<open>k\<close> is the \<open>B\<close> elements from position \<open>k * B\<close>, and their concatenation is
  the sequence), their lengths sum to \<open>N\<close>, none is empty or longer than \<open>B\<close>, every
  slice but the last has length exactly \<open>B\<close>, and the last one has length \<open>N mod B\<close>,
  or \<open>B\<close> when \<open>B\<close> divides \<open>N\<close> (no empty trailing slice is yielded).
\<close>

theorem gen_batch_slices:
  assumes "0 < B"
  shows "\<exists>bs. gen_batch arr B = Inr bs
           \<and> int (length bs) = \<lceil>real (length arr) / real_of_int B\<rceil>
           \<and> concat bs = arr
           \<and> sum_list (map length bs) = length arr
           \<and> (\<forall>b \<in> set bs. b \<noteq> [] \<and> int (length b) \<le> B)
           \<and> (\<forall>k. Suc k < length bs \<longrightarrow> int (length (bs ! k)) = B)
           \<and> (\<forall>k < length bs. bs ! k = take (nat B) (drop (k * nat B) arr))
           \<and> (bs \<noteq> [] \<longrightarrow> int (length (last bs)) =
                 (if int (length arr) mod B = 0 then B else int (length arr) mod B))"
proof -
  define b where "b = nat B"
  define N where "N = length arr"
  define n where "n = (N + b - 1) div b"
  define bs where "bs = map (\<lambda>k. take b (drop (k * b) arr)) [0..<n]"
  have b: "0 < b" "int b = B" using assms by (simp_all add: b_def)
  have gb: "gen_batch arr B = Inr bs"
    using gen_batch_pos [OF assms, of arr] by (simp add: bs_def n_def N_def b_def)
  have len: "length bs = n" by (simp add: bs_def)
  have nth: "bs ! k = take b (drop (k * b) arr)" if "k < n" for k
    using that by (simp add: bs_def)
  have up: "real N / real b \<le> real n"
  proof -
    have "N \<le> n * b" unfolding n_def by (rule nbatch_bounds(1) [OF b(1)])
    then have "real N \<le> real n * real b" by (metis of_nat_le_iff of_nat_mult)
    then show ?thesis using b(1) by (simp add: divide_le_eq)
  qed
  have lo: "real n - 1 < real N / real b"
  proof (cases n)
    case 0
    have "(0::real) \<le> real N / real b" by simp
    then have "(-1::real) < real N / real b" by linarith
    with 0 show ?thesis by simp
  next
    case (Suc m)
    then have "m < (N + b - 1) div b" by (simp add: n_def)
    then have "m * b < N" by (rule nbatch_lt [OF b(1)])
    then have "real m * real b < real N" by (metis of_nat_less_iff of_nat_mult)
    then show ?thesis using b(1) Suc by (simp add: less_divide_eq)
  qed
  have "\<lceil>real N / real b\<rceil> = int n"
    using lo up by (intro ceiling_unique) simp_all
  moreover have "real_of_int B = real b" using b(2) by (metis of_int_of_nat_eq)
  ultimately have c1: "int (length bs) = \<lceil>real (length arr) / real_of_int B\<rceil>"
    by (simp add: len N_def)
  have c2: "concat bs = arr"
    using nbatch_bounds(1) [OF b(1), of N] by (simp add: bs_def concat_take_drop n_def N_def)
  have c3: "sum_list (map length bs) = length arr"
    using c2 by (metis length_concat)
  have c4: "\<forall>x \<in> set bs. x \<noteq> [] \<and> int (length x) \<le> B"
  proof
    fix x assume "x \<in> set bs"
    then obtain k where k: "k < n" "x = take b (drop (k * b) arr)"
      by (auto simp: bs_def)
    from k(1) have "k * b < N" unfolding n_def by (rule nbatch_lt [OF b(1)])
    with k(2) b show "x \<noteq> [] \<and> int (length x) \<le> B"
      by (auto simp: N_def)
  qed
  have c5: "\<forall>k. Suc k < length bs \<longrightarrow> int (length (bs ! k)) = B"
  proof (intro allI impI)
    fix k assume "Suc k < length bs"
    then have k: "Suc k < n" by (simp add: len)
    then have "k * b + b \<le> N" unfolding n_def by (rule nbatch_full [OF b(1)])
    then have "min (N - k * b) b = b" by linarith
    with k have "length (bs ! k) = b"
      by (simp add: nth N_def)
    with b(2) show "int (length (bs ! k)) = B" by simp
  qed
  have c6: "\<forall>k < length bs. bs ! k = take (nat B) (drop (k * nat B) arr)"
    by (simp add: len nth b_def)
  have c7: "bs \<noteq> [] \<longrightarrow> int (length (last bs)) =
                 (if int (length arr) mod B = 0 then B else int (length arr) mod B)"
  proof
    assume ne: "bs \<noteq> []"
    then have n0: "0 < n" using len by (cases bs) auto
    then have "0 * b < N" unfolding n_def by (rule nbatch_lt [OF b(1)])
    then have N0: "0 < N" by simp
    have "last bs = bs ! (n - 1)" using ne len by (simp add: last_conv_nth)
    also have "\<dots> = take b (drop ((n - 1) * b) arr)" using n0 by (simp add: nth)
    finally have "length (last bs) = min b (N - (n - 1) * b)"
      by (simp add: N_def min.commute)
    also have "N - (n - 1) * b = (if N mod b = 0 then b else N mod b)"
      unfolding n_def by (rule nbatch_last [OF b(1) N0])
    also have "min b (if N mod b = 0 then b else N mod b) = (if N mod b = 0 then b else N mod b)"
      using b(1) mod_less_divisor [OF b(1), of N] by (simp add: min_def)
    finally have "int (length (last bs)) = (if int N mod int b = 0 then int b else int N mod int b)"
      by (simp add: zmod_int [symmetric] del: of_nat_mod)
    then show "int (length (last bs)) =
                 (if int (length arr) mod B = 0 then B else int (length arr) mod B)"
      by (simp add: b N_def)
  qed
  from gb c1 c2 c3 c4 c5 c6 c7 show ?thesis by blast
qed

lemma gen_batch_example: "gen_batch [1, 2, 3, 4, 5 :: int] 2 = Inr [[1, 2], [3, 4], [5]]"
  by code_simp

theorem gen_batch_slices_witness:
  "(0::int) < 2 \<and> gen_batch [1, 2, 3, 4, 5 :: int] 2 = Inr [[1, 2], [3, 4], [5]]"
proof -
  from gen_batch_slices [of 2 "[1, 2, 3, 4, 5 :: int]"]
  obtain bs where gb: "gen_batch [1, 2, 3, 4, 5 :: int] 2 = Inr bs"
    and len: "int (length bs) = \<lceil>real (length [1, 2, 3, 4, 5 :: int]) / real_of_int 2\<rceil>"
    and nth: "\<forall>k < length bs. bs ! k = take (nat 2) (drop (k * nat 2) [1, 2, 3, 4, 5 :: int])"
    by auto
  from len have l3: "length bs = 3" by simp
  have "bs = [bs ! 0, bs ! 1, bs ! 2]"
    using l3 by (intro nth_equalityI) (auto simp: less_Suc_eq numeral_3_eq_3 numeral_2_eq_2)
  also have "\<dots> = [[1, 2], [3, 4], [5]]"
    using nth l3 by (simp add: numeral_2_eq_2)
  finally show ?thesis using gb by simp
qed

text \<open>
  Claim C7, as the code has it. The generator validates nothing itself: for a batch size
  of \<open>0\<close> the call of \<^verbatim>\<open>range\<close> raises (Python's \<open>ValueError\<close>) for every input
  sequence and no slice is produced; for a negative batch size the range is empty, so
  the generator yields no slice and raises nothing.
\<close>

theorem gen_batch_nonpositive:
  "B \<le> 0 \<Longrightarrow> gen_batch arr B = (if B = 0 then Inl ValueError else Inr [])"
  by (simp add: gen_batch_def py_range_def range_down.simps [of 0])

theorem gen_batch_nonpositive_witness:
  "(0::int) \<le> 0 \<and> gen_batch [1, 2, 3 :: int] 0 = Inl ValueError"
  using gen_batch_nonpositive [of 0 "[1, 2, 3 :: int]"] by simp

text \<open>A negative batch size is not an error: the claim as stated fails at \<open>B = -1\<close>.\<close>

theorem gen_batch_negative_counterexample:
  "(- 1 :: int) \<le> 0 \<and> gen_batch [1, 2, 3 :: int] (- 1) = Inr []"
  by (simp add: gen_batch_def py_range_def range_down.simps [of 0])

section \<open>The learning-rate schedule\<close>






text \<open>
  Claim C8. With \<open>total_steps = 0\<close> the scheduler fails at every step: the division by
  \<^verbatim>\<open>-total_steps\<close> raises Python's \<open>ZeroDivisionError\<close>, the error that the
  specification files under its class of invalid arguments.
\<close>

theorem adjust_lr_zero_total:
  "adjust_lr opt current_step 0 = Inl ZeroDivisionError"
  by (simp add: adjust_lr_def)

section \<open>Reversal is an involution\<close>

lemma range_down_rev: "range_down (int n - 1) (- 1) (- 1) = map int (rev [0..<n])"
proof (induction n)
  case 0
  show ?case by (simp add: range_down.simps [of "- 1"])
next
  case (Suc n)
  have "range_down (int (Suc n) - 1) (- 1) (- 1) = int n # range_down (int n - 1) (- 1) (- 1)"
    by (simp add: range_down.simps [of "int n"])
  with Suc show ?case by simp
qed

lemma select_rev:
  "has_shape sh t \<Longrightarrow> d < length sh \<Longrightarrow> select_nest d (rev [0..<sh ! d]) t = rev_axis d t"
proof (induction d arbitrary: sh t)
  case 0
  then obtain n ns xs where p: "sh = n # ns" "t = Arr xs" "length xs = n"
    by (cases sh; cases t) auto
  have "map (\<lambda>i. xs ! i) (rev [0..<length xs]) = rev (map (\<lambda>i. xs ! i) [0..<length xs])"
    by (simp add: rev_map)
  also have "\<dots> = rev xs" by (simp add: map_nth)
  finally show ?case using p by simp
next
  case (Suc d)
  then obtain n ns xs where p: "sh = n # ns" "t = Arr xs" "\<forall>x \<in> set xs. has_shape ns x"
    by (cases sh; cases t) auto
  have "select_nest d (rev [0..<ns ! d]) x = rev_axis d x" if "x \<in> set xs" for x
    using Suc.IH [of ns x] Suc.prems p that by simp
  then show ?case using p by simp
qed

lemma rev_axis_shape: "has_shape sh t \<Longrightarrow> has_shape sh (rev_axis d t)"
proof (induction d arbitrary: sh t)
  case 0
  then show ?case by (cases sh; cases t) auto
next
  case (Suc d)
  then show ?case by (cases sh; cases t) auto
qed

lemma rev_axis_twice: "rev_axis d (rev_axis d t) = t"
proof (induction d arbitrary: t)
  case 0
  show ?case by (cases t) simp_all
next
  case (Suc d)
  then show ?case by (cases t) (simp_all add: map_idI)
qed

lemma get_rev_axis:
  "has_shape sh t \<Longrightarrow> d < length sh \<Longrightarrow> length idx = length sh \<Longrightarrow>
   \<forall>k < length sh. idx ! k < sh ! k \<Longrightarrow>
   get_nest (rev_axis d t) idx = get_nest t (idx[d := sh ! d - 1 - idx ! d])"
proof (induction d arbitrary: sh t idx)
  case 0
  then obtain n ns xs where p: "sh = n # ns" "t = Arr xs" "length xs = n"
    by (cases sh; cases t) auto
  from 0 p obtain i js where q: "idx = i # js" by (cases idx) auto
  from 0(4) p q have i: "i < n" by auto
  then have "rev xs ! i = xs ! (n - 1 - i)"
    using p by (simp add: rev_nth)
  with i p q show ?case by simp
next
  case (Suc d)
  then obtain n ns xs where p: "sh = n # ns" "t = Arr xs" "length xs = n"
      "\<forall>x \<in> set xs. has_shape ns x"
    by (cases sh; cases t) auto
  from Suc p obtain i js where q: "idx = i # js" by (cases idx) auto
  from Suc(5) p q have i: "i < n" by auto
  have js: "\<forall>k < length ns. js ! k < ns ! k"
  proof (intro allI impI)
    fix k assume "k < length ns"
    then have "Suc k < length sh" using p by simp
    with Suc.prems(4) have "idx ! Suc k < sh ! Suc k" by blast
    then show "js ! k < ns ! k" using p q by simp
  qed
  have "get_nest (rev_axis d (xs ! i)) js = get_nest (xs ! i) (js[d := ns ! d - 1 - js ! d])"
    using Suc.IH [of ns "xs ! i" js] Suc.prems p q i js by simp
  with i p q show ?case by simp
qed

lemma reverse_eq:
  assumes "wrap_dim (length (shape X)) axis = Inr d"
  shows "reverse X axis =
           Inr (Tensor (shape X) (select_nest d (rev [0..<shape X ! d]) (elems X)))"
proof -
  have d: "d < length (shape X)"
    using assms by (auto simp: wrap_dim_def split: if_splits)
  have "\<forall>i \<in> set (map int (rev [0..<shape X ! d])). 0 \<le> i \<and> i < int (shape X ! d)"
    by auto
  moreover have "map nat (map int (rev [0..<shape X ! d])) = rev [0..<shape X ! d]"
    by (simp add: o_def)
  moreover have "(shape X)[d := length (map int (rev [0..<shape X ! d]))] = shape X"
    using d by (simp add: list_update_same_conv)
  ultimately show ?thesis
    using assms
    by (simp add: reverse_def size_t_def py_range_def range_down_rev index_select_def
        del: set_map map_map set_rev set_upt)
qed

text \<open>
  Claim C3. For a well-formed tensor \<open>X\<close> and a valid axis \<open>axis\<close> (standing for axis \<open>d\<close>),
  the reversal succeeds with a tensor \<open>Y\<close> of the same shape whose element at an index
  is the element of \<open>X\<close> at that index mirrored along axis \<open>d\<close> and unchanged along
  every other axis, and reversing \<open>Y\<close> along \<open>axis\<close> gives \<open>X\<close> back.
\<close>

theorem reverse_involution:
  assumes "wf_tensor X" and "wrap_dim (length (shape X)) axis = Inr d"
  shows "\<exists>Y. reverse X axis = Inr Y \<and> wf_tensor Y \<and> shape Y = shape X
           \<and> reverse Y axis = Inr X
           \<and> (\<forall>idx. length idx = length (shape X) \<and> (\<forall>k < length (shape X). idx ! k < shape X ! k)
                 \<longrightarrow> item Y idx = item X (idx[d := shape X ! d - 1 - idx ! d]))"
proof -
  define Y where "Y = Tensor (shape X) (rev_axis d (elems X))"
  have d: "d < length (shape X)"
    using assms(2) by (auto simp: wrap_dim_def split: if_splits)
  have hs: "has_shape (shape X) (elems X)" using assms(1) by (simp add: wf_tensor_def)
  have r: "reverse X axis = Inr Y"
    using reverse_eq [OF assms(2)] select_rev [OF hs d] by (simp add: Y_def)
  have wf: "wf_tensor Y"
    using rev_axis_shape [OF hs] by (simp add: Y_def wf_tensor_def)
  have sh: "shape Y = shape X" by (simp add: Y_def)
  have "wrap_dim (length (shape Y)) axis = Inr d" using assms(2) sh by simp
  from reverse_eq [OF this] have "reverse Y axis = Inr (Tensor (shape X) (rev_axis d (rev_axis d (elems X))))"
    using select_rev [OF rev_axis_shape [OF hs] d, of d] by (simp add: Y_def)
  then have again: "reverse Y axis = Inr X" by (simp add: rev_axis_twice)
  have el: "\<forall>idx. length idx = length (shape X) \<and> (\<forall>k < length (shape X). idx ! k < shape X ! k)
                 \<longrightarrow> item Y idx = item X (idx[d := shape X ! d - 1 - idx ! d])"
    using get_rev_axis [OF hs d] by (simp add: item_def Y_def)
  from r wf sh again el show ?thesis by blast
qed

lemma reverse_example:
  "reverse (Tensor [2, 3] (Arr [Arr [Elem 1, Elem 2, Elem 3], Arr [Elem 4, Elem 5, Elem (6::int)]])) 1
     = Inr (Tensor [2, 3] (Arr [Arr [Elem 3, Elem 2, Elem 1], Arr [Elem 6, Elem 5, Elem 4]]))"
  by code_simp

theorem reverse_involution_witness:
  "wf_tensor (Tensor [2, 3] (Arr [Arr [Elem 1, Elem 2, Elem 3], Arr [Elem 4, Elem 5, Elem (6::int)]]))
   \<and> wrap_dim 2 1 = Inr 1
   \<and> reverse (Tensor [2, 3] (Arr [Arr [Elem 1, Elem 2, Elem 3], Arr [Elem 4, Elem 5, Elem (6::int)]])) 1
       = Inr (Tensor [2, 3] (Arr [Arr [Elem 3, Elem 2, Elem 1], Arr [Elem 6, Elem 5, Elem 4]]))
   \<and> reverse (Tensor [2, 3] (Arr [Arr [Elem 3, Elem 2, Elem 1], Arr [Elem 6, Elem 5, Elem (4::int)]])) 1
       = Inr (Tensor [2, 3] (Arr [Arr [Elem 1, Elem 2, Elem 3], Arr [Elem 4, Elem 5, Elem 6]]))"
proof -
  let ?X = "Tensor [2, 3] (Arr [Arr [Elem 1, Elem 2, Elem 3], Arr [Elem 4, Elem 5, Elem (6::int)]])"
  let ?Y = "Tensor [2, 3] (Arr [Arr [Elem 3, Elem 2, Elem 1], Arr [Elem 6, Elem 5, Elem (4::int)]])"
  have a: "wf_tensor ?X" by (simp add: wf_tensor_def)
  have b: "wrap_dim (length (shape ?X)) 1 = Inr 1" by (simp add: wrap_dim_def)
  from reverse_involution [OF a b] obtain Y
    where Y: "reverse ?X 1 = Inr Y" "reverse Y 1 = Inr ?X"
    by blast
  from Y(1) have "Y = ?Y" by (simp add: reverse_example)
  moreover have "wrap_dim 2 1 = Inr 1" by (simp add: wrap_dim_def)
  ultimately show ?thesis using Y a by simp
qed

section \<open>The encoder agrees with its specification\<close>

















section \<open>The attention weights are normalised over the batch\<close>

lemma softmax_example_one:
  "softmax (Tensor [1, 2, 1] (Arr [Arr [Arr [Elem 0], Arr [Elem 0]]]))
     = Tensor [1, 2, 1] (Arr [Arr [Arr [Elem 1], Arr [Elem 1]]])"
  by (simp add: softmax_def softmax_dim_def softmax_first_def Let_def upt_conv_Cons numeral_2_eq_2)

lemma softmax_example_two:
  "softmax (Tensor [2, 1, 1] (Arr [Arr [Arr [Elem 0]], Arr [Arr [Elem 0]]]))
     = Tensor [2, 1, 1] (Arr [Arr [Arr [Elem (1 / 2)]], Arr [Arr [Elem (1 / 2)]]])"
  by (simp add: softmax_def softmax_dim_def softmax_first_def Let_def upt_conv_Cons numeral_2_eq_2)

lemma attention_alphas_one:
  "attention_alphas toy_model
     (Tensor [1, 2, 2] (Arr [Arr [Arr [Elem 1, Elem (- 3)], Arr [Elem 3, Elem (- 2)]]])) 1
   = Inr (Tensor [1, 2, 1] (Arr [Arr [Arr [Elem 1], Arr [Elem 1]]]))"
proof -
  have v1: "view (Tensor [1, 2, 2] (Arr [Arr [Arr [Elem 1, Elem (- 3)], Arr [Elem 3, Elem (- 2 :: real)]]]))
              [- 1, 2 * int (cell_size toy_model)]
            = Inr (Tensor [2, 2] (Arr [Arr [Elem 1, Elem (- 3)], Arr [Elem 3, Elem (- 2)]]))"
    by code_simp
  have l1: "linear_layer (attn_fc toy_model)
              (Tensor [2, 2] (Arr [Arr [Elem 1, Elem (- 3)], Arr [Elem 3, Elem (- 2)]]))
            = Inr (Tensor [2, 1] (Arr [Arr [Elem 0], Arr [Elem 0]]))"
    by code_simp
  have t1: "map_tensor tanh (Tensor [2, 1] (Arr [Arr [Elem 0], Arr [Elem 0]]))
            = Tensor [2, 1] (Arr [Arr [Elem 0], Arr [Elem (0::real)]])"
    by simp
  have v2: "view (Tensor [2, 1] (Arr [Arr [Elem 0], Arr [Elem (0::real)]])) [1, - 1, 1]
            = Inr (Tensor [1, 2, 1] (Arr [Arr [Arr [Elem 0], Arr [Elem 0]]]))"
    by code_simp
  show ?thesis
    by (simp only: attention_alphas_def v1 l1 t1 v2 softmax_example_one sum.case Let_def)
qed

lemma attention_alphas_two:
  "attention_alphas toy_model
     (Tensor [2, 1, 2] (Arr [Arr [Arr [Elem 1, Elem (- 3)]], Arr [Arr [Elem 3, Elem (- 2)]]])) 2
   = Inr (Tensor [2, 1, 1] (Arr [Arr [Arr [Elem (1 / 2)]], Arr [Arr [Elem (1 / 2)]]]))"
proof -
  have v1: "view (Tensor [2, 1, 2] (Arr [Arr [Arr [Elem 1, Elem (- 3)]], Arr [Arr [Elem 3, Elem (- 2 :: real)]]]))
              [- 1, 2 * int (cell_size toy_model)]
            = Inr (Tensor [2, 2] (Arr [Arr [Elem 1, Elem (- 3)], Arr [Elem 3, Elem (- 2)]]))"
    by code_simp
  have l1: "linear_layer (attn_fc toy_model)
              (Tensor [2, 2] (Arr [Arr [Elem 1, Elem (- 3)], Arr [Elem 3, Elem (- 2)]]))
            = Inr (Tensor [2, 1] (Arr [Arr [Elem 0], Arr [Elem 0]]))"
    by code_simp
  have t1: "map_tensor tanh (Tensor [2, 1] (Arr [Arr [Elem 0], Arr [Elem 0]]))
            = Tensor [2, 1] (Arr [Arr [Elem 0], Arr [Elem (0::real)]])"
    by simp
  have v2: "view (Tensor [2, 1] (Arr [Arr [Elem 0], Arr [Elem (0::real)]])) [2, - 1, 1]
            = Inr (Tensor [2, 1, 1] (Arr [Arr [Arr [Elem 0]], Arr [Arr [Elem 0]]]))"
    by code_simp
  show ?thesis
    by (simp only: attention_alphas_def v1 l1 t1 v2 softmax_example_two sum.case Let_def)
qed

text \<open>
  Claim C4, at two inputs. The softmax is called without an axis on a tensor of shape
  \<open>(batch_size, seq_len, 1)\<close>, and for three axes the library normalises along axis \<open>0\<close>,
  the batch. For one example of two time steps both attention weights are \<open>1\<close>, so the
  weights of the example sum to \<open>2\<close>; for two examples of one time step each weight is
  \<open>1 / 2\<close>, so the weights of an example sum to \<open>1 / 2\<close> and it is the weights of one
  time step across the batch that sum to \<open>1\<close>.
\<close>

theorem attention_alphas_sum_over_batch:
  "attention_alphas toy_model
     (Tensor [1, 2, 2] (Arr [Arr [Arr [Elem 1, Elem (- 3)], Arr [Elem 3, Elem (- 2)]]])) 1
     = Inr (Tensor [1, 2, 1] (Arr [Arr [Arr [Elem 1], Arr [Elem 1]]]))
   \<and> map (\<lambda>example. sum_list (leaves example))
         (children (elems (Tensor [1, 2, 1] (Arr [Arr [Arr [Elem 1], Arr [Elem (1::real)]]])))) = [2]
   \<and> attention_alphas toy_model
     (Tensor [2, 1, 2] (Arr [Arr [Arr [Elem 1, Elem (- 3)]], Arr [Arr [Elem 3, Elem (- 2)]]])) 2
     = Inr (Tensor [2, 1, 1] (Arr [Arr [Arr [Elem (1 / 2)]], Arr [Arr [Elem (1 / 2)]]]))
   \<and> map (\<lambda>example. sum_list (leaves example))
         (children (elems (Tensor [2, 1, 1] (Arr [Arr [Arr [Elem (1 / 2)]], Arr [Arr [Elem (1 / 2 :: real)]]]))))
       = [1 / 2, 1 / 2]"
  using attention_alphas_one attention_alphas_two by simp

section \<open>The evaluation loop\<close>







section \<open>The toy model at work\<close>






section \<open>The training loop\<close>
















end
